theory Spec2Isabelle
  imports Complex_Main "HOL-Library.AList" "HOL-Library.Sublist"
begin

section \<open>Data model of \<^verbatim>\<open>selection.ts\<close>\<close>

text \<open>
  The file \<^verbatim>\<open>src/selection.ts\<close> holds the class \<^verbatim>\<open>Selection\<close> (projection and
  filter planning) and the function \<^verbatim>\<open>buildSelection\<close>. Everything else it calls
  (the value compiler \<^verbatim>\<open>buildValue\<close>, \<^verbatim>\<open>trimNullish\<close>, the \<^verbatim>\<open>Value\<close> factories, the
  filter node classes, \<^verbatim>\<open>getId\<close>/\<^verbatim>\<open>setId\<close>) lives in other modules. Those collaborators
  are taken as parameters (the record \<open>extern\<close> below), or, where a statement needs
  their behaviour, modelled from the specification and marked as such. The methods
  \<^verbatim>\<open>sql\<close> (text rendering) and \<^verbatim>\<open>getIndex\<close> (which hands the base's opaque index object
  through) are left out.
\<close>

subsection \<open>Errors\<close>

text \<open>The \<^verbatim>\<open>DataType\<close> enumeration (only the members this development names).\<close>

datatype DataType = DataType_bool | DataType_null | DataType_int | DataType_text | DataType_array

text \<open>
  Every \<^verbatim>\<open>throw\<close> of the file is a value of \<open>error\<close>: \<open>QueryError\<close>, \<open>ColumnNotFound\<close>,
  \<open>CastError\<close> and \<open>NotSupported\<close> are the imported exception classes, \<open>Error\<close> is the plain
  JavaScript \<^verbatim>\<open>Error\<close>, and \<open>TypeError\<close> is what the runtime raises on a property read
  of \<^verbatim>\<open>null\<close> or \<^verbatim>\<open>undefined\<close>.
\<close>

datatype error =
    QueryError string
  | ColumnNotFound string
  | CastError DataType DataType
  | NotSupported string
  | Error string
  | TypeError string

subsection \<open>Types, scalars and rows\<close>

text \<open>
  The type objects \<^verbatim>\<open>Types.bool\<close>, \<^verbatim>\<open>Types.null\<close>, ... and \<^verbatim>\<open>makeArray(t)\<close>. The source
  compares them by reference (\<^verbatim>\<open>itype !== Types.bool\<close>); they are singletons, so
  equality of the datatype stands for it.
\<close>

datatype itype = Types_bool | Types_null | Types_int | Types_text | makeArray itype

fun primary :: "itype \<Rightarrow> DataType" where
  "primary Types_bool = DataType_bool"
| "primary Types_null = DataType_null"
| "primary Types_int = DataType_int"
| "primary Types_text = DataType_text"
| "primary (makeArray t) = DataType_array"

text \<open>\<^verbatim>\<open>convert\<close> accepts either a \<^verbatim>\<open>DataType\<close> or a type object.\<close>

datatype cast_to = ToDataType DataType | ToType itype

text \<open>
  JavaScript values a column evaluates to. Numbers are integers here (no claim depends
  on fractional values or NaN).
\<close>

datatype scalar = JNull | JUndefined | JBool bool | JNum int | JStr string | JArr "scalar list"

text \<open>JavaScript truthiness, as \<^verbatim>\<open>if (val)\<close> tests it.\<close>

fun truthy :: "scalar \<Rightarrow> bool" where
  "truthy JNull = False"
| "truthy JUndefined = False"
| "truthy (JBool b) = b"
| "truthy (JNum n) = (n \<noteq> 0)"
| "truthy (JStr s) = (s \<noteq> [])"
| "truthy (JArr xs) = True"

text \<open>The operator \<^verbatim>\<open>v ?? null\<close>.\<close>

fun nullish_coalesce :: "scalar \<Rightarrow> scalar" where
  "nullish_coalesce JUndefined = JNull"
| "nullish_coalesce v = v"

text \<open>
  A row object: its identity tag and its own properties as an association list
  (an assignment \<^verbatim>\<open>ret[k] = v\<close> is \<open>AList.update k v\<close>: it overwrites in place or appends;
  the statements below read a row through \<open>map_of\<close>, never by position).
\<close>

datatype row = Row (row_id: string) (row_fields: "(string \<times> scalar) list")

definition getId :: "row \<Rightarrow> string" where
  \<comment> \<open>Modelled from the spec: \<^verbatim>\<open>getId\<close> of \<^verbatim>\<open>interfaces-private\<close> is not in the file; the
      spec calls it the primitive that reads the stable identity string of a row.\<close>
  "getId item = row_id item"

definition setId :: "row \<Rightarrow> string \<Rightarrow> row" where
  \<comment> \<open>Modelled from the spec: \<^verbatim>\<open>setId\<close> of \<^verbatim>\<open>interfaces-private\<close> is not in the file; the
      spec calls it the primitive that tags a row with its identity string.\<close>
  "setId item i = Row i (row_fields item)"

subsection \<open>Typed values\<close>

text \<open>
  \<^verbatim>\<open>IValue\<close>: \<^verbatim>\<open>id\<close>, \<^verbatim>\<open>type\<close>, \<^verbatim>\<open>isConstant\<close>, \<^verbatim>\<open>index\<close> (absent, or an index object with its
  key \<^verbatim>\<open>expressions\<close>) and \<^verbatim>\<open>get(raw)\<close>, where \<^verbatim>\<open>raw\<close> is a row or \<^verbatim>\<open>null\<close>. An evaluation
  may throw (the full-schema evaluator \<^verbatim>\<open>raw => raw[col.id]\<close> does on \<^verbatim>\<open>null\<close>).
\<close>

datatype ivalue =
  IValue (id_val: string) (type_val: itype) (isConstant: bool)
         (index: "iindex option") (get_val: "row option \<Rightarrow> error + scalar")
and iindex = IIndex (expressions: "ivalue list")

definition setId_val :: "ivalue \<Rightarrow> string \<Rightarrow> ivalue" where
  \<comment> \<open>Modelled from the spec: \<^verbatim>\<open>IValue.setId\<close> is not in the file; the spec says the
      alias rebinds the value's \<^verbatim>\<open>id\<close>.\<close>
  "setId_val v a = IValue a (type_val v) (isConstant v) (index v) (get_val v)"

subsection \<open>Predicate and projection syntax\<close>

text \<open>
  The predicate is an untyped parser object. \<open>AstNull\<close> is \<^verbatim>\<open>null\<close>/\<^verbatim>\<open>undefined\<close> (the
  falsy predicates), \<open>AstEmpty\<close> the object \<^verbatim>\<open>{}\<close>, \<open>BinaryExpr op l r\<close> the object
  \<^verbatim>\<open>{type: 'binary_expr', operator: op, left: l, right: r}\<close>, and \<open>AstNode k t\<close> any other
  object with \<^verbatim>\<open>type\<close> tag \<open>k\<close> and no \<^verbatim>\<open>operator\<close>, \<^verbatim>\<open>left\<close>, \<^verbatim>\<open>right\<close> (its content \<open>t\<close>
  only matters to the value compiler).
\<close>

datatype ast = AstNull | AstEmpty | BinaryExpr string ast ast | AstNode string string

fun falsy :: "ast \<Rightarrow> bool" where
  "falsy AstNull = True"
| "falsy f = False"

text \<open>Property reads on a non-null node: \<open>None\<close> and \<open>AstNull\<close> stand for \<^verbatim>\<open>undefined\<close>.\<close>

fun type_of :: "ast \<Rightarrow> string option" where
  "type_of (BinaryExpr op l r) = Some ''binary_expr''"
| "type_of (AstNode k t) = Some k"
| "type_of f = None"

fun operator_of :: "ast \<Rightarrow> string option" where
  "operator_of (BinaryExpr op l r) = Some op"
| "operator_of f = None"

fun left_of :: "ast \<Rightarrow> ast" where
  "left_of (BinaryExpr op l r) = l"
| "left_of f = AstNull"

fun right_of :: "ast \<Rightarrow> ast" where
  "right_of (BinaryExpr op l r) = r"
| "right_of f = AstNull"

text \<open>String concatenation with a possibly undefined operand: \<^verbatim>\<open>'condition ' + filter.type\<close>.\<close>

fun js_string :: "string option \<Rightarrow> string" where
  "js_string None = ''undefined''"
| "js_string (Some s) = s"

text \<open>One entry \<^verbatim>\<open>{expr, as}\<close> of an explicit column list, and one field of a schema.\<close>

datatype sel_item = SelItem (expr: ast) (as: "string option")

datatype field = Field (field_id: string) (field_type: itype)

text \<open>The argument of \<^verbatim>\<open>buildSelection\<close>/\<^verbatim>\<open>select\<close> and of the constructor.\<close>

datatype select_arg = Star | Columns "sel_item list"

datatype what_arg = Array "sel_item list" | Schema "field list"

subsection \<open>Relations\<close>

text \<open>
  A relation (\<^verbatim>\<open>_ISelection\<close>) is a \<open>Selection\<close>, one of the filter nodes the file
  constructs, or \<open>Source rows has e\<close>: a relation implemented elsewhere (a table, a
  join), given by what it enumerates, its \<^verbatim>\<open>hasItem\<close> and its \<^verbatim>\<open>entropy\<close>.
\<close>

datatype rel =
    Source "row list" "row \<Rightarrow> bool" real
  | Selection (base: rel) (columns: "ivalue list")
              (columnsById: "(string \<times> ivalue) list") (selPrefix: string)
  | EqFilter ivalue "ivalue list"
  | NeqFilter ivalue "ivalue list"
  | FalseFilter rel
  | AndFilter rel rel
  | OrFilter rel rel
  | SeqScanFilter rel ivalue
  | InFilter ivalue ivalue
  | NotInFilter ivalue ivalue

text \<open>
  The collaborators of the file, as parameters. \<open>buildValue\<close> and \<open>convert\<close> may throw;
  the \<^verbatim>\<open>Value\<close> factories and \<^verbatim>\<open>buildAndFilter\<close> return a value. The last three fields
  give the behaviour of the filter nodes whose classes are in other modules.
\<close>

record extern =
  buildValue :: "rel \<Rightarrow> ast \<Rightarrow> error + ivalue"
  convert :: "ivalue \<Rightarrow> cast_to \<Rightarrow> error + ivalue"
  trimNullish :: "ast \<Rightarrow> ast"
  Value_bool :: "bool \<Rightarrow> ivalue"
  Value_isNull :: "ivalue \<Rightarrow> bool \<Rightarrow> ivalue"
  Value_in :: "ivalue \<Rightarrow> ivalue \<Rightarrow> bool \<Rightarrow> ivalue"
  buildAndFilter :: "rel \<Rightarrow> rel \<Rightarrow> rel"
  ext_enumerate :: "rel \<Rightarrow> row list \<times> error option"
  ext_hasItem :: "rel \<Rightarrow> row \<Rightarrow> bool"
  ext_entropy :: "rel \<Rightarrow> real"

section \<open>Filter construction\<close>

text \<open>The fallback \<^verbatim>\<open>new SeqScanFilter(this, buildValue(this, filter))\<close>.\<close>

definition seqScan :: "extern \<Rightarrow> rel \<Rightarrow> ast \<Rightarrow> error + rel" where
  "seqScan env this fltr =
     (case buildValue env this fltr of
        Inl e \<Rightarrow> Inl e
      | Inr v \<Rightarrow> Inr (SeqScanFilter this v))"

text \<open>\<^verbatim>\<open>Selection.buildComparison\<close>.\<close>

definition buildComparison :: "extern \<Rightarrow> rel \<Rightarrow> ast \<Rightarrow> error + rel" where
  "buildComparison env this fltr =
     (case buildValue env this (left_of fltr) of
        Inl e \<Rightarrow> Inl e
      | Inr leftValue \<Rightarrow>
     (case buildValue env this (right_of fltr) of
        Inl e \<Rightarrow> Inl e
      | Inr rightValue \<Rightarrow>
          if isConstant leftValue \<and> isConstant rightValue then
            (case buildValue env this fltr of
               Inl e \<Rightarrow> Inl e
             | Inr global \<Rightarrow>
                 (case get_val global None of
                    Inl e \<Rightarrow> Inl e
                  | Inr got \<Rightarrow> if truthy got then Inr this else Inr (FalseFilter this)))
          else if operator_of fltr \<in> {Some ''='', Some ''!='', Some ''<>''} then
            (if index leftValue \<noteq> None \<and> isConstant rightValue then
               (if operator_of fltr = Some ''=''
                then Inr (EqFilter leftValue [rightValue])
                else Inr (NeqFilter leftValue [rightValue]))
             else if index rightValue \<noteq> None \<and> isConstant leftValue then
               (if operator_of fltr = Some ''=''
                then Inr (EqFilter rightValue [leftValue])
                else Inr (NeqFilter rightValue [leftValue]))
             else seqScan env this fltr)
          else seqScan env this fltr))"

text \<open>The operands of a node that has an operator are smaller than the node.\<close>

lemma size_left_of: "operator_of f = Some op \<Longrightarrow> size (left_of f) < size f"
  by (cases f) simp_all

lemma size_right_of: "operator_of f = Some op \<Longrightarrow> size (right_of f) < size f"
  by (cases f) simp_all

text \<open>
  \<^verbatim>\<open>Selection.buildFilter\<close> and \<^verbatim>\<open>Selection.buildBinaryFilter\<close>, which call each other.
  \<open>buildBinaryFilter\<close> is only entered with a non-null node.
\<close>

function buildFilter :: "extern \<Rightarrow> rel \<Rightarrow> ast \<Rightarrow> error + rel"
  and buildBinaryFilter :: "extern \<Rightarrow> rel \<Rightarrow> ast \<Rightarrow> error + rel" where
  "buildFilter env this fltr =
     (case buildValue env this fltr of
        Inl e \<Rightarrow> Inl e
      | Inr built \<Rightarrow>
          (case index built of
             Some ix \<Rightarrow>
               if length (expressions ix) \<noteq> 1 then
                 Inl (Error ''Was not expecing multiples expressions filter'')
               else if type_val (hd (expressions ix)) \<noteq> Types_bool then
                 Inl (CastError (primary (type_val (hd (expressions ix)))) DataType_bool)
               else Inr (EqFilter built [Value_bool env True])
           | None \<Rightarrow>
               if isConstant built then
                 (case convert env built (ToDataType DataType_bool) of
                    Inl e \<Rightarrow> Inl e
                  | Inr c \<Rightarrow>
                      (case get_val c None of
                         Inl e \<Rightarrow> Inl e
                       | Inr val \<Rightarrow> if truthy val then Inr this else Inr (FalseFilter this)))
               else if fltr = AstNull then
                 Inl (TypeError ''Cannot read properties of null'')
               else if type_of fltr = Some ''binary_expr'' then
                 buildBinaryFilter env this fltr
               else Inl (NotSupported (''condition '' @ js_string (type_of fltr)))))"
| "buildBinaryFilter env this fltr =
     (if operator_of fltr \<in> {Some ''='', Some ''>'', Some ''<'', Some ''<='', Some ''>=''} then
        buildComparison env this fltr
      else if operator_of fltr \<in> {Some ''AND'', Some ''OR''} then
        (case buildFilter env this (left_of fltr) of
           Inl e \<Rightarrow> Inl e
         | Inr leftFilter \<Rightarrow>
        (case buildFilter env this (right_of fltr) of
           Inl e \<Rightarrow> Inl e
         | Inr rightFilter \<Rightarrow>
             if operator_of fltr = Some ''AND''
             then Inr (buildAndFilter env leftFilter rightFilter)
             else Inr (OrFilter leftFilter rightFilter)))
      else if operator_of fltr \<in> {Some ''IS'', Some ''IS NOT''} then
        (case buildValue env this (right_of fltr) of
           Inl e \<Rightarrow> Inl e
         | Inr rightValue \<Rightarrow>
             if type_val rightValue \<noteq> Types_null then
               Inl (NotSupported ''only IS NULL is supported'')
             else
               (case buildValue env this (left_of fltr) of
                  Inl e \<Rightarrow> Inl e
                | Inr leftValue \<Rightarrow>
                    if index leftValue \<noteq> None then
                      (if operator_of fltr = Some ''IS''
                       then Inr (EqFilter leftValue [rightValue])
                       else Inr (NeqFilter leftValue [rightValue]))
                    else Inr (SeqScanFilter this
                                (Value_isNull env leftValue (operator_of fltr = Some ''IS'')))))
      else if operator_of fltr \<in> {Some ''IN'', Some ''NOT IN''} then
        (case buildValue env this (left_of fltr) of
           Inl e \<Rightarrow> Inl e
         | Inr val \<Rightarrow>
        (case buildValue env this (right_of fltr) of
           Inl e \<Rightarrow> Inl e
         | Inr rv \<Rightarrow>
        (case convert env rv (ToType (makeArray (type_val val))) of
           Inl e \<Rightarrow> Inl e
         | Inr array \<Rightarrow>
             if isConstant array
                \<and> (case index val of None \<Rightarrow> False | Some ix \<Rightarrow> length (expressions ix) = 1) then
               (if operator_of fltr = Some ''IN''
                then Inr (InFilter val array)
                else Inr (NotInFilter val array))
             else Inr (SeqScanFilter this
                         (Value_in env val array (operator_of fltr = Some ''IN''))))))
      else seqScan env this fltr)"
  by pat_completeness auto

termination
  by (relation "measure (\<lambda>x. case x of Inl (e, t, f) \<Rightarrow> 2 * size f + 1
                                      | Inr (e, t, f) \<Rightarrow> 2 * size f)")
     (auto dest: size_left_of size_right_of)

text \<open>\<^verbatim>\<open>Selection.filter\<close>.\<close>

definition filter_sel :: "extern \<Rightarrow> rel \<Rightarrow> ast \<Rightarrow> error + rel" where
  "filter_sel env this f =
     (if falsy f then Inr this
      else buildFilter env this (trimNullish env f))"

section \<open>Selection construction\<close>

text \<open>
  The decimal rendering of a counter, as \<^verbatim>\<open>'s' + n\<close> and \<^verbatim>\<open>'column' + n\<close> produce it.
  The counters are natural numbers; that a JavaScript number stops counting exactly
  beyond \<open>2 ^ 53\<close> is not modelled.
\<close>

definition digit_char :: "nat \<Rightarrow> char" where
  "digit_char d = ''0123456789'' ! d"

fun string_of_nat :: "nat \<Rightarrow> string" where
  "string_of_nat n =
     (if n < 10 then [digit_char n]
      else string_of_nat (n div 10) @ [digit_char (n mod 10)])"

declare string_of_nat.simps [simp del]

text \<open>
  The loop of the constructor over an explicit column list: compile each expression
  against the base, rename it when \<^verbatim>\<open>s.as\<close> is truthy, push it and register it by id
  (the \<^verbatim>\<open>debugger\<close> statement does not change the result).
\<close>

fun build_columns ::
  "extern \<Rightarrow> rel \<Rightarrow> sel_item list \<Rightarrow> ivalue list \<Rightarrow> (string \<times> ivalue) list
     \<Rightarrow> error + (ivalue list \<times> (string \<times> ivalue) list)" where
  "build_columns env b [] cols byId = Inr (cols, byId)"
| "build_columns env b (s # ss) cols byId =
     (case buildValue env b (expr s) of
        Inl e \<Rightarrow> Inl e
      | Inr c \<Rightarrow>
          (let col = (case as s of
                        None \<Rightarrow> c
                      | Some a \<Rightarrow> if a \<noteq> [] then setId_val c a else c)
           in build_columns env b ss (cols @ [col]) (AList.update (id_val col) col byId)))"

text \<open>
  The evaluator of the full-schema mode, \<^verbatim>\<open>raw => raw[col.id]\<close>, and the value built
  around it.
\<close>

definition read_field :: "string \<Rightarrow> row option \<Rightarrow> error + scalar" where
  "read_field k raw =
     (case raw of
        None \<Rightarrow> Inl (TypeError ''Cannot read properties of null'')
      | Some r \<Rightarrow> (case map_of (row_fields r) k of None \<Rightarrow> Inr JUndefined | Some v \<Rightarrow> Inr v))"

definition Evaluator ::
  "itype \<Rightarrow> string \<Rightarrow> string \<Rightarrow> string \<Rightarrow> (row option \<Rightarrow> error + scalar) \<Rightarrow> ivalue" where
  \<comment> \<open>Modelled from the spec: the class \<^verbatim>\<open>Evaluator\<close> of \<^verbatim>\<open>valuetypes\<close> is not in the file;
      the spec says the value reads the field out of the raw row and has the field's id
      in its three identity roles. It is neither constant nor index-backed here, and its
      origin argument (the selection under construction) is not represented.\<close>
  "Evaluator t i sql hash val = IValue i t False None val"

fun schema_columns ::
  "field list \<Rightarrow> ivalue list \<Rightarrow> (string \<times> ivalue) list
     \<Rightarrow> ivalue list \<times> (string \<times> ivalue) list" where
  "schema_columns [] cols byId = (cols, byId)"
| "schema_columns (col # fs) cols byId =
     (let newCol = Evaluator (field_type col) (field_id col) (field_id col) (field_id col)
                     (read_field (field_id col))
      in schema_columns fs (cols @ [newCol]) (AList.update (id_val newCol) newCol byId))"

text \<open>
  The constructor. The module variable \<^verbatim>\<open>selCnt\<close> is the state: the function takes its
  value and returns the new one beside the result.
\<close>

definition new_Selection ::
  "extern \<Rightarrow> rel \<Rightarrow> what_arg \<Rightarrow> nat \<Rightarrow> (error + rel) \<times> nat" where
  "new_Selection env b what selCnt =
     (case what of
        Array items \<Rightarrow>
          if items = [] then (Inl (QueryError ''Invalid selection''), selCnt)
          else (case build_columns env b items [] [] of
                  Inl e \<Rightarrow> (Inl e, selCnt)
                | Inr (cols, byId) \<Rightarrow>
                    (Inr (Selection b cols byId (''s'' @ string_of_nat selCnt)), Suc selCnt))
      | Schema fs \<Rightarrow>
          (case schema_columns fs [] [] of
             (cols, byId) \<Rightarrow> (Inr (Selection b cols byId []), selCnt)))"

text \<open>\<^verbatim>\<open>buildSelection\<close> and \<^verbatim>\<open>Selection.select\<close>.\<close>

definition buildSelection ::
  "extern \<Rightarrow> rel \<Rightarrow> select_arg \<Rightarrow> nat \<Rightarrow> (error + rel) \<times> nat" where
  "buildSelection env on sel selCnt =
     (case sel of
        Star \<Rightarrow> (Inr on, selCnt)
      | Columns items \<Rightarrow> new_Selection env on (Array items) selCnt)"

definition select :: "extern \<Rightarrow> rel \<Rightarrow> select_arg \<Rightarrow> nat \<Rightarrow> (error + rel) \<times> nat" where
  "select env this sel selCnt = buildSelection env this sel selCnt"

text \<open>\<^verbatim>\<open>Selection.getColumn\<close>.\<close>

definition getColumn :: "rel \<Rightarrow> string \<Rightarrow> error + ivalue" where
  "getColumn this column =
     (case map_of (columnsById this) column of
        None \<Rightarrow> Inl (ColumnNotFound column)
      | Some ret \<Rightarrow> Inr ret)"

section \<open>Enumeration\<close>

text \<open>
  The generator \<^verbatim>\<open>Selection.enumerate\<close> first names the output keys. Its inner loop
  \<^verbatim>\<open>do { nm = 'column' + (cid++) } while (ids.has(nm))\<close> ends because the renderings of
  different counters differ and \<open>ids\<close> is finite; the lemmas below are its termination
  argument.
\<close>

lemma digit_char_inj: "a < 10 \<Longrightarrow> b < 10 \<Longrightarrow> digit_char a = digit_char b \<Longrightarrow> a = b"
  unfolding digit_char_def
  by (rule iffD1[OF nth_eq_iff_index_eq]) simp_all

lemma string_of_nat_nonempty: "string_of_nat n \<noteq> []"
  by (subst string_of_nat.simps) simp

lemma string_of_nat_last: "last (string_of_nat n) = digit_char (n mod 10)"
  by (subst string_of_nat.simps) simp

lemma string_of_nat_butlast:
  "butlast (string_of_nat n) = (if n < 10 then [] else string_of_nat (n div 10))"
  by (subst string_of_nat.simps) simp

lemma string_of_nat_inj: "string_of_nat m = string_of_nat n \<Longrightarrow> m = n"
proof (induction m arbitrary: n rule: less_induct)
  case (less m)
  from less.prems have l: "digit_char (m mod 10) = digit_char (n mod 10)"
    by (metis string_of_nat_last)
  then have m10: "m mod 10 = n mod 10"
    by (intro digit_char_inj) simp_all
  from less.prems have b: "butlast (string_of_nat m) = butlast (string_of_nat n)"
    by simp
  show ?case
  proof (cases "m < 10")
    case True
    with b have "n < 10"
      using string_of_nat_nonempty[of "n div 10"]
      by (auto simp: string_of_nat_butlast split: if_splits)
    with True m10 show ?thesis by simp
  next
    case False
    with b have n: "\<not> n < 10" and e: "string_of_nat (m div 10) = string_of_nat (n div 10)"
      using string_of_nat_nonempty[of "m div 10"]
      by (auto simp: string_of_nat_butlast split: if_splits)
    from False have "m div 10 < m" by simp
    from less.IH[OF this e] have "m div 10 = n div 10" .
    with m10 show ?thesis
      by (metis div_mult_mod_eq)
  qed
qed

text \<open>The candidate key \<^verbatim>\<open>'column' + n\<close>.\<close>

definition column_name :: "nat \<Rightarrow> string" where
  "column_name n = ''column'' @ string_of_nat n"

lemma column_name_inj: "column_name m = column_name n \<Longrightarrow> m = n"
  by (simp add: column_name_def string_of_nat_inj)

lemma finite_column_numbers: "finite {n. column_name n \<in> set ids}"
proof -
  have "inj column_name"
    by (rule injI) (rule column_name_inj)
  then have "finite (column_name -` set ids)"
    by (intro finite_vimageI) simp_all
  then show ?thesis
    by (simp add: vimage_def)
qed

function next_column_name :: "string list \<Rightarrow> nat \<Rightarrow> string \<times> nat" where
  "next_column_name ids cid =
     (let nm = column_name cid
      in if nm \<in> set ids then next_column_name ids (Suc cid) else (nm, Suc cid))"
  by pat_completeness auto
termination
proof (relation "measure (\<lambda>(ids, cid). card {n. cid \<le> n \<and> column_name n \<in> set ids})")
  show "wf (measure (\<lambda>(ids, cid). card {n. cid \<le> n \<and> column_name n \<in> set ids}))"
    by simp
next
  fix ids :: "string list" and cid :: nat and x
  assume x: "x = column_name cid" and "x \<in> set ids"
  then have mem: "column_name cid \<in> set ids" by simp
  have fin: "finite {n. cid \<le> n \<and> column_name n \<in> set ids}"
    by (rule finite_subset[OF _ finite_column_numbers[of ids]]) auto
  have "cid \<in> {n. cid \<le> n \<and> column_name n \<in> set ids}"
    using mem by simp
  moreover have "cid \<notin> {n. Suc cid \<le> n \<and> column_name n \<in> set ids}"
    by simp
  moreover have "{n. Suc cid \<le> n \<and> column_name n \<in> set ids}
          \<subseteq> {n. cid \<le> n \<and> column_name n \<in> set ids}"
    by auto
  ultimately have "{n. Suc cid \<le> n \<and> column_name n \<in> set ids}
          \<subset> {n. cid \<le> n \<and> column_name n \<in> set ids}"
    by blast
  then have "card {n. Suc cid \<le> n \<and> column_name n \<in> set ids}
               < card {n. cid \<le> n \<and> column_name n \<in> set ids}"
    by (rule psubset_card_mono[OF fin])
  then show "((ids, Suc cid), (ids, cid))
      \<in> measure (\<lambda>(ids, cid). card {n. cid \<le> n \<and> column_name n \<in> set ids})"
    by simp
qed

declare next_column_name.simps [simp del]

text \<open>
  The \<^verbatim>\<open>map\<close> that computes \<^verbatim>\<open>columnIds\<close>, with the counter \<^verbatim>\<open>cid\<close> it shares across the
  columns; \<open>ids\<close> is the set of all column ids.
\<close>

fun columnIds_from :: "string list \<Rightarrow> nat \<Rightarrow> ivalue list \<Rightarrow> string list" where
  "columnIds_from ids cid [] = []"
| "columnIds_from ids cid (x # xs) =
     (if id_val x \<noteq> [] then id_val x # columnIds_from ids cid xs
      else (case next_column_name ids cid of
              (nm, cid') \<Rightarrow> nm # columnIds_from ids cid' xs))"

definition columnIds :: "ivalue list \<Rightarrow> string list" where
  "columnIds cols = columnIds_from (map id_val cols) 0 cols"

text \<open>
  The body of the \<^verbatim>\<open>for\<close> over the upstream rows: a fresh object tagged with the prefixed
  identity, then one assignment \<^verbatim>\<open>ret[columnIds[i]] = col.get(item) ?? null\<close> per column.
\<close>

fun store_columns :: "ivalue list \<Rightarrow> string list \<Rightarrow> row \<Rightarrow> row \<Rightarrow> error + row" where
  "store_columns (col # cols) (k # ks) item ret =
     (case get_val col (Some item) of
        Inl e \<Rightarrow> Inl e
      | Inr v \<Rightarrow>
          store_columns cols ks item
            (Row (row_id ret) (AList.update k (nullish_coalesce v) (row_fields ret))))"
| "store_columns cols ks item ret = Inr ret"

definition project :: "string \<Rightarrow> ivalue list \<Rightarrow> string list \<Rightarrow> row \<Rightarrow> error + row" where
  "project pre cols ks item =
     store_columns cols ks item (setId (Row [] []) (pre @ getId item))"

text \<open>
  A generator run is the list of rows it yields and how it ends: \<open>None\<close> when it
  returns, \<open>Some e\<close> when it throws \<open>e\<close> (nothing is yielded after that). \<open>fin\<close> is how
  the upstream generator ends once its rows are consumed.
\<close>

fun for_items ::
  "(row \<Rightarrow> error + row) \<Rightarrow> row list \<Rightarrow> error option \<Rightarrow> row list \<times> error option" where
  "for_items body [] fin = ([], fin)"
| "for_items body (item # items) fin =
     (case body item of
        Inl e \<Rightarrow> ([], Some e)
      | Inr ret \<Rightarrow> (case for_items body items fin of (rets, r) \<Rightarrow> (ret # rets, r)))"

text \<open>The always-false node.\<close>

definition FalseFilter_enumerate :: "rel \<Rightarrow> row list \<times> error option" where
  \<comment> \<open>Modelled from the spec: the class \<^verbatim>\<open>FalseFilter\<close> of \<^verbatim>\<open>filters/false-filter\<close> is not
      in the file; the spec says its \<^verbatim>\<open>enumerate()\<close> produces nothing, whatever is
      upstream.\<close>
  "FalseFilter_enumerate upstream = ([], None)"

definition FalseFilter_hasItem :: "rel \<Rightarrow> row \<Rightarrow> bool" where
  \<comment> \<open>Modelled from the spec: the class \<^verbatim>\<open>FalseFilter\<close> of \<^verbatim>\<open>filters/false-filter\<close> is not
      in the file; the spec says its \<^verbatim>\<open>hasItem\<close> is always false.\<close>
  "FalseFilter_hasItem upstream v = False"

text \<open>
  \<^verbatim>\<open>enumerate\<close>, \<^verbatim>\<open>hasItem\<close> and \<^verbatim>\<open>entropy\<close> of a relation. Those of \<open>Selection\<close> are in the
  file; the filter nodes other than the always-false one are answered by the
  parameters.
\<close>

fun enumerate :: "extern \<Rightarrow> rel \<Rightarrow> row list \<times> error option" where
  "enumerate env (Source rows has e) = (rows, None)"
| "enumerate env (Selection b cols byId pre) =
     (case enumerate env b of
        (items, fin) \<Rightarrow> for_items (project pre cols (columnIds cols)) items fin)"
| "enumerate env (FalseFilter r) = FalseFilter_enumerate r"
| "enumerate env r = ext_enumerate env r"

fun hasItem :: "extern \<Rightarrow> rel \<Rightarrow> row \<Rightarrow> bool" where
  "hasItem env (Source rows has e) v = has v"
| "hasItem env (Selection b cols byId pre) v = hasItem env b v"
| "hasItem env (FalseFilter r) v = FalseFilter_hasItem r v"
| "hasItem env r v = ext_hasItem env r v"

fun entropy :: "extern \<Rightarrow> rel \<Rightarrow> real" where
  "entropy env (Source rows has e) = e"
| "entropy env (Selection b cols byId pre) = entropy env b"
| "entropy env r = ext_entropy env r"

text \<open>
  A chain of nested selections, read from the outside: the relation under the last
  \<open>Selection\<close> layer, and the prefixes of the layers, outermost first.
\<close>

fun innermost :: "rel \<Rightarrow> rel" where
  "innermost (Selection b cols byId pre) = innermost b"
| "innermost r = r"

fun alias_prefixes :: "rel \<Rightarrow> string" where
  "alias_prefixes (Selection b cols byId pre) = pre @ alias_prefixes b"
| "alias_prefixes r = []"

declare buildFilter.simps [simp del] buildBinaryFilter.simps [simp del]

section \<open>A small database for the concrete checks\<close>

text \<open>
  Typed values as a value compiler would hand them out: \<open>colA\<close> and \<open>colFlag\<close> are columns
  backed by a single-key index, \<open>colPair\<close> by a two-key index, \<open>colB\<close> has no index,
  \<open>lit\<close> is a constant and \<open>computed\<close> an expression evaluated per row.
\<close>

definition keyA :: ivalue where
  "keyA = IValue ''a'' Types_int False None (read_field ''a'')"

definition colA :: ivalue where
  "colA = IValue ''a'' Types_int False (Some (IIndex [keyA])) (read_field ''a'')"

definition keyFlag :: ivalue where
  "keyFlag = IValue ''flag'' Types_bool False None (read_field ''flag'')"

definition colFlag :: ivalue where
  "colFlag = IValue ''flag'' Types_bool False (Some (IIndex [keyFlag])) (read_field ''flag'')"

definition colPair :: ivalue where
  "colPair = IValue ''pair'' Types_bool False (Some (IIndex [keyFlag, keyA])) (read_field ''pair'')"

definition colB :: ivalue where
  "colB = IValue ''b'' Types_int False None (read_field ''b'')"

definition lit :: "itype \<Rightarrow> scalar \<Rightarrow> ivalue" where
  "lit t v = IValue [] t True None (\<lambda>raw. Inr v)"

definition computed :: "itype \<Rightarrow> ivalue" where
  "computed t = IValue [] t False None (\<lambda>raw. Inr JNull)"

definition compile0 :: "rel \<Rightarrow> ast \<Rightarrow> error + ivalue" where
  "compile0 t f =
     (if f = AstNode ''column_ref'' ''a'' then Inr colA
      else if f = AstNode ''column_ref'' ''b'' then Inr colB
      else if f = AstNode ''column_ref'' ''flag'' then Inr colFlag
      else if f = AstNode ''column_ref'' ''pair'' then Inr colPair
      else if f = AstNode ''number'' ''1'' then Inr (lit Types_int (JNum 1))
      else if f = AstNode ''bool'' ''true'' then Inr (lit Types_bool (JBool True))
      else if f = AstNode ''bool'' ''false'' then Inr (lit Types_bool (JBool False))
      else if f = AstNode ''expr_list'' ''1,2''
        then Inr (lit (makeArray Types_int) (JArr [JNum 1, JNum 2]))
      else if type_of f = Some ''binary_expr'' then Inr (computed Types_bool)
      else Inl (NotSupported (''condition '' @ js_string (type_of f))))"

definition env0 :: extern where
  "env0 = \<lparr> buildValue = compile0,
            convert = (\<lambda>v t. Inr v),
            trimNullish = (\<lambda>f. f),
            Value_bool = (\<lambda>b. lit Types_bool (JBool b)),
            Value_isNull = (\<lambda>v b. computed Types_bool),
            Value_in = (\<lambda>v a b. computed Types_bool),
            buildAndFilter = AndFilter,
            ext_enumerate = (\<lambda>r. ([], None)),
            ext_hasItem = (\<lambda>r v. False),
            ext_entropy = (\<lambda>r. 0) \<rparr>"

text \<open>The same collaborators, with a value compiler that accepts every node.\<close>

definition env1 :: extern where
  "env1 = env0\<lparr>buildValue := \<lambda>t f. Inr (computed Types_bool)\<rparr>"

definition tbl :: rel where
  "tbl = Source [Row ''r1'' [(''a'', JNum 1), (''b'', JNum 7)],
                 Row ''r2'' [(''a'', JNum 2)]]
                (\<lambda>v. v \<in> {Row ''r1'' [(''a'', JNum 1), (''b'', JNum 7)],
                            Row ''r2'' [(''a'', JNum 2)]})
                2"

text \<open>A selection over the table, as \<^verbatim>\<open>this\<close> of the methods.\<close>

definition sel0 :: rel where
  "sel0 = Selection tbl [colA] [(''a'', colA)] ''s0''"

text \<open>The column list \<^verbatim>\<open>[{expr: a}]\<close> and a selection of it over \<open>sel0\<close>.\<close>

definition items0 :: "sel_item list" where
  "items0 = [SelItem (AstNode ''column_ref'' ''a'') None]"

definition sel1 :: rel where
  "sel1 = Selection sel0 [colA] [(''a'', colA)] ''s1''"

text \<open>
  A column whose explicit id looks like a synthesized key, and a selection with two
  unnamed constant columns.
\<close>

definition colC0 :: ivalue where
  "colC0 = IValue ''column0'' Types_int False None (read_field ''b'')"

definition selK :: rel where
  "selK = Selection tbl [colA, lit Types_int (JNum 5), lit Types_int JUndefined]
            [(''a'', colA), ([], lit Types_int JUndefined)] ''s7''"

section \<open>Filter planning\<close>

text \<open>
  C3. When the compiled predicate carries index metadata, \<open>buildFilter\<close> fails with the
  internal error if the index does not have exactly one key expression, fails with a
  \<open>CastError\<close> (actual type, expected boolean) if the single key expression is not of
  type boolean, and otherwise returns the equality node matching the indexed value
  against the literal true.
\<close>

theorem buildFilter_index_shortcut:
  assumes "buildValue env this fltr = Inr built" and "index built = Some ix"
  shows "(length (expressions ix) \<noteq> 1 \<longrightarrow>
            buildFilter env this fltr =
              Inl (Error ''Was not expecing multiples expressions filter''))
       \<and> (\<forall>k. expressions ix = [k] \<and> type_val k \<noteq> Types_bool \<longrightarrow>
            buildFilter env this fltr = Inl (CastError (primary (type_val k)) DataType_bool))
       \<and> (\<forall>k. expressions ix = [k] \<and> type_val k = Types_bool \<longrightarrow>
            buildFilter env this fltr = Inr (EqFilter built [Value_bool env True]))"
  using assms by (auto simp add: buildFilter.simps)

theorem buildFilter_index_shortcut_witness:
  "buildFilter env0 sel0 (AstNode ''column_ref'' ''pair'')
     = Inl (Error ''Was not expecing multiples expressions filter'')
   \<and> buildFilter env0 sel0 (AstNode ''column_ref'' ''a'')
     = Inl (CastError DataType_int DataType_bool)
   \<and> buildFilter env0 sel0 (AstNode ''column_ref'' ''flag'')
     = Inr (EqFilter colFlag [lit Types_bool (JBool True)])"
proof -
  have p: "buildValue env0 sel0 (AstNode ''column_ref'' ''pair'') = Inr colPair"
    and a: "buildValue env0 sel0 (AstNode ''column_ref'' ''a'') = Inr colA"
    and f: "buildValue env0 sel0 (AstNode ''column_ref'' ''flag'') = Inr colFlag"
    by (simp_all add: env0_def compile0_def)
  have ip: "index colPair = Some (IIndex [keyFlag, keyA])"
    and ia: "index colA = Some (IIndex [keyA])"
    and ifl: "index colFlag = Some (IIndex [keyFlag])"
    by (simp_all add: colPair_def colA_def colFlag_def)
  show ?thesis
    using buildFilter_index_shortcut[OF p ip] buildFilter_index_shortcut[OF a ia]
      buildFilter_index_shortcut[OF f ifl]
    by (simp add: keyA_def keyFlag_def env0_def)
qed

text \<open>
  C2. When the compiled predicate is constant and carries no index, \<open>buildFilter\<close>
  converts it to boolean and evaluates it on the null row context. A truthy result gives
  back the selection itself; otherwise the result is the always-false node around the
  selection, which enumerates no row and has no item, whatever the selection is.
\<close>

theorem buildFilter_constant:
  assumes "buildValue env this fltr = Inr built" and "index built = None"
    and "isConstant built"
    and "convert env built (ToDataType DataType_bool) = Inr c"
    and "get_val c None = Inr val"
  shows "(truthy val \<longrightarrow> buildFilter env this fltr = Inr this)
       \<and> (\<not> truthy val \<longrightarrow>
            buildFilter env this fltr = Inr (FalseFilter this)
            \<and> enumerate env' (FalseFilter this) = ([], None)
            \<and> (\<forall>x. \<not> hasItem env' (FalseFilter this) x))"
  using assms
  by (simp add: buildFilter.simps FalseFilter_enumerate_def FalseFilter_hasItem_def)

theorem buildFilter_constant_witness:
  "buildFilter env0 sel0 (AstNode ''bool'' ''true'') = Inr sel0
   \<and> buildFilter env0 sel0 (AstNode ''bool'' ''false'') = Inr (FalseFilter sel0)
   \<and> enumerate env0 (FalseFilter sel0) = ([], None)
   \<and> \<not> hasItem env0 (FalseFilter sel0) (Row ''r1'' [(''a'', JNum 1), (''b'', JNum 7)])"
proof -
  have t: "buildValue env0 sel0 (AstNode ''bool'' ''true'') = Inr (lit Types_bool (JBool True))"
    and f: "buildValue env0 sel0 (AstNode ''bool'' ''false'') = Inr (lit Types_bool (JBool False))"
    by (simp_all add: env0_def compile0_def)
  have i: "index (lit Types_bool (JBool b)) = None" and c: "isConstant (lit Types_bool (JBool b))"
    and cv: "convert env0 (lit Types_bool (JBool b)) (ToDataType DataType_bool)
               = Inr (lit Types_bool (JBool b))"
    and g: "get_val (lit Types_bool (JBool b)) None = Inr (JBool b)" for b
    by (simp_all add: lit_def env0_def)
  show ?thesis
    using buildFilter_constant[OF t i c cv g, of env0]
      buildFilter_constant[OF f i c cv g, of env0]
    by simp
qed

text \<open>The two membership operators, unfolded.\<close>

lemma buildBinaryFilter_IN:
  "buildBinaryFilter env this (BinaryExpr ''IN'' l r) =
     (case buildValue env this l of
        Inl e \<Rightarrow> Inl e
      | Inr val \<Rightarrow>
     (case buildValue env this r of
        Inl e \<Rightarrow> Inl e
      | Inr rv \<Rightarrow>
     (case convert env rv (ToType (makeArray (type_val val))) of
        Inl e \<Rightarrow> Inl e
      | Inr array \<Rightarrow>
          if isConstant array
             \<and> (case index val of None \<Rightarrow> False | Some ix \<Rightarrow> length (expressions ix) = 1)
          then Inr (InFilter val array)
          else Inr (SeqScanFilter this (Value_in env val array True)))))"
  by (simp add: buildBinaryFilter.simps split: sum.splits)

lemma buildBinaryFilter_NOT_IN:
  "buildBinaryFilter env this (BinaryExpr ''NOT IN'' l r) =
     (case buildValue env this l of
        Inl e \<Rightarrow> Inl e
      | Inr val \<Rightarrow>
     (case buildValue env this r of
        Inl e \<Rightarrow> Inl e
      | Inr rv \<Rightarrow>
     (case convert env rv (ToType (makeArray (type_val val))) of
        Inl e \<Rightarrow> Inl e
      | Inr array \<Rightarrow>
          if isConstant array
             \<and> (case index val of None \<Rightarrow> False | Some ix \<Rightarrow> length (expressions ix) = 1)
          then Inr (NotInFilter val array)
          else Inr (SeqScanFilter this (Value_in env val array False)))))"
  by (simp add: buildBinaryFilter.simps split: sum.splits)

text \<open>
  C4. For \<open>IN\<close> and \<open>NOT IN\<close>, \<open>buildBinaryFilter\<close> compiles the left operand, compiles the
  right operand and converts it to an array of the left value's type. It returns the
  membership (or non-membership) node exactly when the converted right side is constant
  and the left value has an index with one key expression, and a sequential scan of the
  membership test in every other case.
\<close>

theorem buildBinaryFilter_in:
  assumes "op = ''IN'' \<or> op = ''NOT IN''"
    and "buildValue env this l = Inr val"
    and "buildValue env this r = Inr rv"
    and "convert env rv (ToType (makeArray (type_val val))) = Inr array"
  shows "buildBinaryFilter env this (BinaryExpr op l r) =
           (if isConstant array \<and> (\<exists>ix. index val = Some ix \<and> length (expressions ix) = 1)
            then (if op = ''IN'' then Inr (InFilter val array) else Inr (NotInFilter val array))
            else Inr (SeqScanFilter this (Value_in env val array (op = ''IN''))))"
proof -
  have ix: "(case index val of None \<Rightarrow> False | Some ix \<Rightarrow> length (expressions ix) = 1)
              = (\<exists>ix. index val = Some ix \<and> length (expressions ix) = 1)"
    by (cases "index val") simp_all
  from assms(1) show ?thesis
  proof
    assume "op = ''IN''"
    then show ?thesis
      using assms(2-4) ix by (simp add: buildBinaryFilter_IN)
  next
    assume "op = ''NOT IN''"
    then show ?thesis
      using assms(2-4) ix by (simp add: buildBinaryFilter_NOT_IN)
  qed
qed

theorem buildBinaryFilter_in_witness:
  "buildBinaryFilter env0 sel0
      (BinaryExpr ''IN'' (AstNode ''column_ref'' ''a'') (AstNode ''expr_list'' ''1,2''))
     = Inr (InFilter colA (lit (makeArray Types_int) (JArr [JNum 1, JNum 2])))
   \<and> buildBinaryFilter env0 sel0
      (BinaryExpr ''NOT IN'' (AstNode ''column_ref'' ''a'') (AstNode ''expr_list'' ''1,2''))
     = Inr (NotInFilter colA (lit (makeArray Types_int) (JArr [JNum 1, JNum 2])))
   \<and> buildBinaryFilter env0 sel0
      (BinaryExpr ''IN'' (AstNode ''column_ref'' ''b'') (AstNode ''expr_list'' ''1,2''))
     = Inr (SeqScanFilter sel0 (computed Types_bool))
   \<and> buildBinaryFilter env0 sel0
      (BinaryExpr ''IN'' (AstNode ''column_ref'' ''pair'') (AstNode ''expr_list'' ''1,2''))
     = Inr (SeqScanFilter sel0 (computed Types_bool))
   \<and> buildBinaryFilter env0 sel0
      (BinaryExpr ''IN'' (AstNode ''column_ref'' ''a'') (AstNode ''column_ref'' ''b''))
     = Inr (SeqScanFilter sel0 (computed Types_bool))"
proof -
  have a: "buildValue env0 sel0 (AstNode ''column_ref'' ''a'') = Inr colA"
    and b: "buildValue env0 sel0 (AstNode ''column_ref'' ''b'') = Inr colB"
    and p: "buildValue env0 sel0 (AstNode ''column_ref'' ''pair'') = Inr colPair"
    and l: "buildValue env0 sel0 (AstNode ''expr_list'' ''1,2'')
              = Inr (lit (makeArray Types_int) (JArr [JNum 1, JNum 2]))"
    by (simp_all add: env0_def compile0_def)
  have cv: "convert env0 v t = Inr v" for v t
    by (simp add: env0_def)
  show ?thesis
    using buildBinaryFilter_in[OF disjI1[OF refl] a l cv]
      buildBinaryFilter_in[OF disjI2[OF refl] a l cv]
      buildBinaryFilter_in[OF disjI1[OF refl] b l cv]
      buildBinaryFilter_in[OF disjI1[OF refl] p l cv]
      buildBinaryFilter_in[OF disjI1[OF refl] a b cv]
    by (simp add: colA_def colB_def colPair_def lit_def env0_def)
qed

text \<open>The operators \<open>!=\<close> and \<open><>\<close> are not among the cases that reach \<open>buildComparison\<close>.\<close>

lemma buildBinaryFilter_neq:
  "buildBinaryFilter env this (BinaryExpr ''!='' l r) = seqScan env this (BinaryExpr ''!='' l r)"
  "buildBinaryFilter env this (BinaryExpr ''<>'' l r) = seqScan env this (BinaryExpr ''<>'' l r)"
  by (simp_all add: buildBinaryFilter.simps)

text \<open>
  C1. The claim: a comparison with \<open>=\<close>, \<open>!=\<close> or \<open><>\<close> between an indexed operand and a
  constant one is planned as an index-backed equality or inequality node, whichever side
  holds the index. On the indexed column \<open>a\<close> and the constant \<open>1\<close>: \<open>buildFilter\<close> plans
  \<open>a != 1\<close> and \<open>1 <> a\<close> as sequential scans, although \<open>buildComparison\<close>, had it been
  called, returns the inequality node for both; \<open>a = 1\<close> and \<open>1 = a\<close> are planned as the
  equality node.
\<close>

theorem buildFilter_neq_seq_scan:
  "buildFilter env0 sel0
      (BinaryExpr ''!='' (AstNode ''column_ref'' ''a'') (AstNode ''number'' ''1''))
     = Inr (SeqScanFilter sel0 (computed Types_bool))
   \<and> buildFilter env0 sel0
      (BinaryExpr ''<>'' (AstNode ''number'' ''1'') (AstNode ''column_ref'' ''a''))
     = Inr (SeqScanFilter sel0 (computed Types_bool))
   \<and> buildComparison env0 sel0
      (BinaryExpr ''!='' (AstNode ''column_ref'' ''a'') (AstNode ''number'' ''1''))
     = Inr (NeqFilter colA [lit Types_int (JNum 1)])
   \<and> buildComparison env0 sel0
      (BinaryExpr ''<>'' (AstNode ''number'' ''1'') (AstNode ''column_ref'' ''a''))
     = Inr (NeqFilter colA [lit Types_int (JNum 1)])
   \<and> buildFilter env0 sel0
      (BinaryExpr ''='' (AstNode ''column_ref'' ''a'') (AstNode ''number'' ''1''))
     = Inr (EqFilter colA [lit Types_int (JNum 1)])
   \<and> buildFilter env0 sel0
      (BinaryExpr ''='' (AstNode ''number'' ''1'') (AstNode ''column_ref'' ''a''))
     = Inr (EqFilter colA [lit Types_int (JNum 1)])"
proof -
  let ?a = "AstNode ''column_ref'' ''a''" and ?one = "AstNode ''number'' ''1''"
  have bv: "buildValue env0 sel0 ?a = Inr colA"
    "buildValue env0 sel0 ?one = Inr (lit Types_int (JNum 1))"
    "buildValue env0 sel0 (BinaryExpr op l r) = Inr (computed Types_bool)" for op l r
    by (simp_all add: env0_def compile0_def)
  have at: "index colA \<noteq> None" "\<not> isConstant colA"
    "index (lit Types_int (JNum 1)) = None" "isConstant (lit Types_int (JNum 1))"
    "index (computed Types_bool) = None" "\<not> isConstant (computed Types_bool)"
    by (simp_all add: colA_def lit_def computed_def)
  have cmp: "buildComparison env0 sel0 (BinaryExpr ''!='' ?a ?one) = Inr (NeqFilter colA [lit Types_int (JNum 1)])"
    "buildComparison env0 sel0 (BinaryExpr ''<>'' ?one ?a) = Inr (NeqFilter colA [lit Types_int (JNum 1)])"
    "buildComparison env0 sel0 (BinaryExpr ''='' ?a ?one) = Inr (EqFilter colA [lit Types_int (JNum 1)])"
    "buildComparison env0 sel0 (BinaryExpr ''='' ?one ?a) = Inr (EqFilter colA [lit Types_int (JNum 1)])"
    by (simp_all add: buildComparison_def bv at)
  have bin: "buildBinaryFilter env0 sel0 (BinaryExpr ''='' l r) = buildComparison env0 sel0 (BinaryExpr ''='' l r)" for l r
    by (simp add: buildBinaryFilter.simps)
  have top: "buildFilter env0 sel0 (BinaryExpr op l r) = buildBinaryFilter env0 sel0 (BinaryExpr op l r)" for op l r
    by (simp add: buildFilter.simps bv at)
  show ?thesis
    by (simp add: top bin cmp buildBinaryFilter_neq seqScan_def bv)
qed

text \<open>
  C5. The claim: \<open>filter\<close> returns the selection itself when the predicate is null-ish or
  reduces to nothing after null-stripping. The predicate \<^verbatim>\<open>{}\<close> is not null-ish and has
  nothing left after stripping; \<open>filter\<close> hands it to \<open>buildFilter\<close>, which fails with
  \<open>NotSupported\<close>, whether the value compiler rejects the empty node or compiles it.
\<close>

theorem filter_sel_empty_counterexample:
  "\<not> falsy AstEmpty
   \<and> trimNullish env0 AstEmpty = AstEmpty
   \<and> filter_sel env0 sel0 AstEmpty = Inl (NotSupported ''condition undefined'')
   \<and> filter_sel env1 sel0 AstEmpty = Inl (NotSupported ''condition undefined'')
   \<and> filter_sel env0 sel0 AstEmpty \<noteq> Inr sel0"
  by (simp add: filter_sel_def buildFilter.simps env1_def env0_def compile0_def computed_def)

text \<open>
  C5, amended. \<open>filter\<close> returns the selection itself when the predicate is null-ish;
  any other predicate is null-stripped and handed to \<open>buildFilter\<close>, whatever is left
  of it.
\<close>

theorem filter_sel_absent:
  "(falsy f \<longrightarrow> filter_sel env this f = Inr this)
   \<and> (\<not> falsy f \<longrightarrow> filter_sel env this f = buildFilter env this (trimNullish env f))"
  by (simp add: filter_sel_def)

theorem filter_sel_absent_witness:
  "filter_sel env0 sel0 AstNull = Inr sel0
   \<and> filter_sel env0 sel0 (AstNode ''bool'' ''false'')
       = buildFilter env0 sel0 (AstNode ''bool'' ''false'')"
  using filter_sel_absent[of AstNull env0 sel0]
    filter_sel_absent[of "AstNode ''bool'' ''false''" env0 sel0]
  by (simp add: env0_def)

section \<open>Projection\<close>

text \<open>
  C7. Selecting \<open>*\<close> on a relation returns that relation: no \<open>Selection\<close> is built around
  it, and the counter that mints the prefixes is left as it was. The same holds for the
  method \<open>select\<close> of a selection.
\<close>

theorem select_star:
  "buildSelection env on Star selCnt = (Inr on, selCnt)
   \<and> select env this Star selCnt = (Inr this, selCnt)"
  by (simp add: select_def buildSelection_def)

text \<open>
  C10. \<open>hasItem\<close> of a selection is \<open>hasItem\<close> of its base at the same row, and its
  entropy is the entropy of its base; over a relation given by its membership test,
  the selection answers with that test.
\<close>

theorem hasItem_entropy_base:
  "hasItem env (Selection b cols byId pre) v = hasItem env b v
   \<and> entropy env (Selection b cols byId pre) = entropy env b
   \<and> hasItem env (Selection (Source rows has e) cols byId pre) v = has v"
  by simp

text \<open>What the selections over the table enumerate.\<close>

lemma columnIds_colA: "columnIds [colA] = [''a'']"
  by (simp add: columnIds_def colA_def)

lemma enumerate_sel0:
  "enumerate env0 (Selection tbl [colA] [(''a'', colA)] pre)
     = ([Row (pre @ ''r1'') [(''a'', JNum 1)], Row (pre @ ''r2'') [(''a'', JNum 2)]], None)"
proof -
  have g: "get_val colA raw = read_field ''a'' raw" for raw
    by (simp add: colA_def)
  show ?thesis
    by (simp add: tbl_def columnIds_colA project_def setId_def getId_def g read_field_def)
qed

lemma enumerate_over_sel0:
  "enumerate env0 (Selection sel0 [colA] [(''a'', colA)] pre)
     = ([Row (pre @ ''s0r1'') [(''a'', JNum 1)], Row (pre @ ''s0r2'') [(''a'', JNum 2)]], None)"
proof -
  have g: "get_val colA raw = read_field ''a'' raw" for raw
    by (simp add: colA_def)
  have "enumerate env0 (Selection sel0 [colA] [(''a'', colA)] pre)
          = for_items (project pre [colA] [''a''])
              [Row ''s0r1'' [(''a'', JNum 1)], Row ''s0r2'' [(''a'', JNum 2)]] None"
    unfolding sel0_def
      enumerate.simps(2)[of env0 "Selection tbl [colA] [(''a'', colA)] ''s0''"]
      enumerate_sel0 columnIds_colA
    by simp
  then show ?thesis
    by (simp add: project_def setId_def getId_def g read_field_def)
qed

lemma enumerate_sel1:
  "enumerate env0 sel1
     = ([Row ''s1s0r1'' [(''a'', JNum 1)], Row ''s1s0r2'' [(''a'', JNum 2)]], None)"
  unfolding sel1_def enumerate_over_sel0 by simp

text \<open>
  On \<open>sel0\<close>: a row of the table is an item, the projected row that \<open>enumerate\<close> yields
  for it is not.
\<close>

theorem hasItem_entropy_base_witness:
  "hasItem env0 sel0 (Row ''r1'' [(''a'', JNum 1), (''b'', JNum 7)])
   \<and> fst (enumerate env0 sel0) = [Row ''s0r1'' [(''a'', JNum 1)], Row ''s0r2'' [(''a'', JNum 2)]]
   \<and> \<not> hasItem env0 sel0 (Row ''s0r1'' [(''a'', JNum 1)])
   \<and> entropy env0 sel0 = 2"
proof -
  have e: "fst (enumerate env0 sel0)
             = [Row ''s0r1'' [(''a'', JNum 1)], Row ''s0r2'' [(''a'', JNum 2)]]"
    unfolding sel0_def enumerate_sel0 by simp
  have h: "hasItem env0 sel0 v = hasItem env0 tbl v" and n: "entropy env0 sel0 = entropy env0 tbl"
    for v
    using hasItem_entropy_base[of env0 tbl "[colA]" "[(''a'', colA)]" "''s0''" v]
    by (simp_all add: sel0_def)
  show ?thesis
    unfolding h n e by (simp add: tbl_def)
qed

section \<open>The prefix counter\<close>

text \<open>Selecting an explicit column list, unfolded.\<close>

lemma select_Columns:
  "select env this (Columns items) n =
     (if items = [] then (Inl (QueryError ''Invalid selection''), n)
      else (case build_columns env this items [] [] of
              Inl e \<Rightarrow> (Inl e, n)
            | Inr (cols, byId) \<Rightarrow>
                (Inr (Selection this cols byId (''s'' @ string_of_nat n)), Suc n)))"
  by (simp add: select_def buildSelection_def new_Selection_def)

lemma prefix_fresh: "''s'' @ string_of_nat n \<noteq> ''s'' @ string_of_nat (Suc n)"
  by (auto dest: string_of_nat_inj)

lemma build_columns_items0: "build_columns env0 t items0 [] [] = Inr ([colA], [(''a'', colA)])"
proof -
  have "buildValue env0 t (AstNode ''column_ref'' ''a'') = Inr colA"
    by (simp add: env0_def compile0_def)
  moreover have "id_val colA = ''a''"
    by (simp add: colA_def)
  ultimately show ?thesis
    by (simp add: items0_def)
qed

lemma string_of_nat_small:
  "string_of_nat 0 = ''0''" "string_of_nat (Suc 0) = ''1''" "string_of_nat 2 = ''2''"
  by (simp_all add: string_of_nat.simps digit_char_def)

lemma select_items0:
  "select env0 sel0 (Columns items0) 0
     = (Inr (Selection sel0 [colA] [(''a'', colA)] ''s0''), Suc 0)"
  "select env0 sel0 (Columns items0) (Suc 0) = (Inr sel1, 2)"
  by (simp_all add: select_Columns build_columns_items0 string_of_nat_small sel1_def)
     (simp_all add: items0_def)

text \<open>
  C9. The claim: building a selection twice from the same inputs gives plans that behave
  alike, and touches no state outside the objects built. Selecting the column \<open>a\<close> of
  \<open>sel0\<close> twice gives two selections that differ (prefixes \<open>s0\<close> and \<open>s1\<close>), whose rows
  carry different identities, and the counter \<^verbatim>\<open>selCnt\<close> has moved.
\<close>

theorem select_twice_counterexample:
  "fst (select env0 sel0 (Columns items0) 0)
     \<noteq> fst (select env0 sel0 (Columns items0) (snd (select env0 sel0 (Columns items0) 0)))
   \<and> snd (select env0 sel0 (Columns items0) 0) \<noteq> 0
   \<and> map getId (fst (enumerate env0 (Selection sel0 [colA] [(''a'', colA)] ''s0'')))
       = [''s0s0r1'', ''s0s0r2'']
   \<and> map getId (fst (enumerate env0 sel1)) = [''s1s0r1'', ''s1s0r2'']"
  by (simp add: select_items0 enumerate_over_sel0 enumerate_sel1 getId_def sel1_def
      del: enumerate.simps)

text \<open>
  C9, amended. Selecting an explicit column list reads the counter \<^verbatim>\<open>selCnt\<close> and, when
  it succeeds, increments it by one: the result wraps the receiver, unchanged, under the
  prefix \<open>s\<close> followed by the old counter value. Selecting the same list again gives the
  same columns and lookup under a different prefix. A failed construction leaves the
  counter as it was and fails the same way from any counter value; selecting \<open>*\<close> leaves
  the counter as it was.
\<close>

theorem select_columns_counter:
  "(\<forall>s n'. select env this (Columns items) n = (Inr s, n') \<longrightarrow>
       n' = Suc n
       \<and> s = Selection this (columns s) (columnsById s) (''s'' @ string_of_nat n)
       \<and> select env this (Columns items) n'
           = (Inr (Selection this (columns s) (columnsById s) (''s'' @ string_of_nat n')), Suc n')
       \<and> ''s'' @ string_of_nat n \<noteq> ''s'' @ string_of_nat n')
   \<and> (\<forall>e n' m. select env this (Columns items) n = (Inl e, n') \<longrightarrow>
       n' = n \<and> select env this (Columns items) m = (Inl e, m))
   \<and> select env this Star n = (Inr this, n)"
proof (intro conjI allI impI)
  fix s n'
  assume a: "select env this (Columns items) n = (Inr s, n')"
  then obtain cols byId where b: "items \<noteq> []"
    "build_columns env this items [] [] = Inr (cols, byId)"
    by (auto simp: select_Columns split: if_splits sum.splits)
  from a b show "n' = Suc n"
    and s: "s = Selection this (columns s) (columnsById s) (''s'' @ string_of_nat n)"
    by (auto simp: select_Columns)
  from a b show "select env this (Columns items) n'
           = (Inr (Selection this (columns s) (columnsById s) (''s'' @ string_of_nat n')), Suc n')"
    by (auto simp: select_Columns)
  from a b show "''s'' @ string_of_nat n \<noteq> ''s'' @ string_of_nat n'"
    using prefix_fresh[of n] by (auto simp: select_Columns)
next
  fix e n' m
  assume a: "select env this (Columns items) n = (Inl e, n')"
  then show "n' = n"
    by (auto simp: select_Columns split: if_splits sum.splits)
  from a show "select env this (Columns items) m = (Inl e, m)"
    by (auto simp: select_Columns split: if_splits sum.splits)
next
  show "select env this Star n = (Inr this, n)"
    by (simp add: select_def buildSelection_def)
qed

theorem select_columns_counter_witness:
  "select env0 sel0 (Columns items0) 0
     = (Inr (Selection sel0 [colA] [(''a'', colA)] ''s0''), 1)
   \<and> select env0 sel0 (Columns items0) 1 = (Inr sel1, 2)
   \<and> ''s0'' \<noteq> ''s1''"
  using select_columns_counter[of env0 sel0 items0 0] select_items0(1)
  by (simp add: sel1_def string_of_nat_small)

section \<open>Row identity under nesting\<close>

text \<open>
  Every row a selection yields carries its prefix before the identity of the upstream
  row it was computed from; a run that stops at a throwing column has yielded the rows
  of a prefix of the upstream sequence.
\<close>

lemma store_columns_id:
  "store_columns cols ks item ret = Inr out \<Longrightarrow> row_id out = row_id ret"
  by (induction cols ks item ret rule: store_columns.induct) (auto split: sum.splits)

lemma project_id: "project pre cols ks item = Inr y \<Longrightarrow> getId y = pre @ getId item"
  by (auto simp: project_def getId_def setId_def dest: store_columns_id)

lemma for_items_length: "length (fst (for_items body items fin)) \<le> length items"
  by (induction items) (auto split: sum.splits prod.splits)

lemma for_items_complete:
  "snd (for_items body items fin) = None \<Longrightarrow>
     length (fst (for_items body items fin)) = length items \<and> fin = None"
  by (induction items) (auto split: sum.splits prod.splits)

lemma for_items_nth:
  "k < length (fst (for_items body items fin)) \<Longrightarrow>
     body (items ! k) = Inr (fst (for_items body items fin) ! k)"
proof (induction items arbitrary: k)
  case Nil
  then show ?case by simp
next
  case (Cons item items)
  then show ?case
    by (cases k) (auto split: sum.splits prod.splits)
qed

lemma for_items_ids:
  assumes "\<And>x y. body x = Inr y \<Longrightarrow> getId y = pre @ getId x"
  shows "map getId (fst (for_items body items fin))
           = map (\<lambda>x. pre @ getId x) (take (length (fst (for_items body items fin))) items)"
  using assms by (induction items) (auto split: sum.splits prod.splits)

lemma enumerate_ids:
  "map getId (fst (enumerate env r))
     = map (\<lambda>x. alias_prefixes r @ getId x)
         (take (length (fst (enumerate env r))) (fst (enumerate env (innermost r))))"
proof (induction r)
  case (Selection b cols byId pre)
  obtain items fin where e: "enumerate env b = (items, fin)"
    by (cases "enumerate env b")
  let ?out = "fst (for_items (project pre cols (columnIds cols)) items fin)"
  let ?inner = "fst (enumerate env (innermost b))"
  have le: "length ?out \<le> length items"
    by (rule for_items_length)
  have "map getId ?out = map (\<lambda>x. pre @ getId x) (take (length ?out) items)"
    by (rule for_items_ids) (rule project_id)
  also have "\<dots> = map (\<lambda>i. pre @ i) (take (length ?out) (map getId items))"
    by (simp add: take_map)
  also have "map getId items
      = map (\<lambda>x. alias_prefixes b @ getId x) (take (length items) ?inner)"
    using Selection.IH e by simp
  also have "map (\<lambda>i. pre @ i)
        (take (length ?out) (map (\<lambda>x. alias_prefixes b @ getId x) (take (length items) ?inner)))
      = map (\<lambda>x. (pre @ alias_prefixes b) @ getId x) (take (length ?out) ?inner)"
    using le by (simp add: take_map min_def)
  finally show ?case
    using e by simp
qed simp_all

lemma enumerate_complete:
  "snd (enumerate env r) = None \<Longrightarrow>
     length (fst (enumerate env r)) = length (fst (enumerate env (innermost r)))"
proof (induction r)
  case (Selection b cols byId pre)
  obtain items fin where e: "enumerate env b = (items, fin)"
    by (cases "enumerate env b")
  from Selection.prems e
  have "snd (for_items (project pre cols (columnIds cols)) items fin) = None"
    by simp
  from for_items_complete[OF this]
  have l: "length (fst (for_items (project pre cols (columnIds cols)) items fin)) = length items"
    and f: "fin = None"
    by blast+
  from f e Selection.IH have "length items = length (fst (enumerate env (innermost b)))"
    by simp
  with l e show ?case
    by simp
qed simp_all

lemma enumerate_distinct:
  assumes "distinct (map getId (fst (enumerate env (innermost r))))"
  shows "distinct (map getId (fst (enumerate env r)))"
proof -
  let ?inner = "fst (enumerate env (innermost r))"
  let ?k = "length (fst (enumerate env r))"
  have "map getId (fst (enumerate env r))
          = map (\<lambda>i. alias_prefixes r @ i) (map getId (take ?k ?inner))"
    by (subst enumerate_ids) simp
  moreover have "distinct (map getId (take ?k ?inner))"
    using assms by (simp add: take_map[symmetric] del: take_map)
  moreover have "inj_on (\<lambda>i. alias_prefixes r @ i) A" for A
    by (simp add: inj_on_def)
  ultimately show ?thesis
    by (simp add: distinct_map del: map_map)
qed

lemma new_Selection_chain:
  "new_Selection env r (Array items) n = (Inr s, n') \<Longrightarrow>
     alias_prefixes s = ''s'' @ string_of_nat n @ alias_prefixes r \<and> innermost s = innermost r"
  by (auto simp: new_Selection_def split: if_splits sum.splits)

text \<open>
  C6. For a chain of nested selections, the identities of the rows the outermost
  \<open>enumerate\<close> yields are the identities of the innermost relation's rows, in order,
  each behind the concatenation of the layers' prefixes (outermost first); all the
  innermost rows are covered when the enumeration ends without a throw. Innermost rows
  with different identities give rows with different identities. A layer constructed
  over an explicit column list adds the prefix \<open>s\<close> followed by the counter value in
  front.
\<close>

theorem nested_identity:
  "map getId (fst (enumerate env r))
     = map (\<lambda>x. alias_prefixes r @ getId x)
         (take (length (fst (enumerate env r))) (fst (enumerate env (innermost r))))
   \<and> (snd (enumerate env r) = None \<longrightarrow>
        length (fst (enumerate env r)) = length (fst (enumerate env (innermost r))))
   \<and> (distinct (map getId (fst (enumerate env (innermost r)))) \<longrightarrow>
        distinct (map getId (fst (enumerate env r))))
   \<and> (\<forall>items n s n'. new_Selection env r (Array items) n = (Inr s, n') \<longrightarrow>
        alias_prefixes s = ''s'' @ string_of_nat n @ alias_prefixes r
        \<and> innermost s = innermost r)"
  using enumerate_ids[of env r] enumerate_complete[of env r] enumerate_distinct[of env r]
    new_Selection_chain[of env r]
  by blast

theorem nested_identity_witness:
  "snd (enumerate env0 sel1) = None
   \<and> distinct (map getId (fst (enumerate env0 tbl)))
   \<and> new_Selection env0 sel0 (Array items0) 1 = (Inr sel1, 2)
   \<and> alias_prefixes sel1 = ''s1s0'' \<and> innermost sel1 = tbl
   \<and> map getId (fst (enumerate env0 sel1)) = [''s1s0r1'', ''s1s0r2'']
   \<and> distinct (map getId (fst (enumerate env0 sel1)))"
proof -
  have n: "new_Selection env0 sel0 (Array items0) 1 = (Inr sel1, 2)"
    using select_items0(2) by (simp add: select_def buildSelection_def)
  have p0: "alias_prefixes sel0 = ''s0''" and i0: "innermost sel0 = tbl"
    by (simp_all add: sel0_def tbl_def)
  have d: "distinct (map getId (fst (enumerate env0 tbl)))"
    by (simp add: tbl_def getId_def)
  from nested_identity[of env0 sel0] n
  have "alias_prefixes sel1 = ''s'' @ string_of_nat 1 @ alias_prefixes sel0
        \<and> innermost sel1 = innermost sel0"
    by blast
  with p0 i0 have c: "alias_prefixes sel1 = ''s1s0''" "innermost sel1 = tbl"
    by (simp_all add: string_of_nat_small)
  from c(2) d have "distinct (map getId (fst (enumerate env0 (innermost sel1))))"
    by simp
  with nested_identity[of env0 sel1]
  have "distinct (map getId (fst (enumerate env0 sel1)))"
    by blast
  with n c d show ?thesis
    by (simp add: enumerate_sel1 getId_def)
qed

section \<open>Output keys\<close>

text \<open>
  What the inner loop returns: the first candidate from the counter on that is not a
  column id, and the counter after it.
\<close>

lemma next_column_name_spec:
  "next_column_name ids cid = (nm, cid') \<Longrightarrow>
     \<exists>n. nm = column_name n \<and> cid \<le> n \<and> cid' = Suc n \<and> column_name n \<notin> set ids
         \<and> (\<forall>m. cid \<le> m \<and> m < n \<longrightarrow> column_name m \<in> set ids)"
proof (induction ids cid rule: next_column_name.induct)
  case (1 ids cid)
  show ?case
  proof (cases "column_name cid \<in> set ids")
    case True
    with "1.prems" have "next_column_name ids (Suc cid) = (nm, cid')"
      by (simp add: next_column_name.simps[of ids cid])
    from "1.IH"[OF refl True this] obtain n where n: "nm = column_name n" "Suc cid \<le> n"
      "cid' = Suc n" "column_name n \<notin> set ids"
      "\<forall>m. Suc cid \<le> m \<and> m < n \<longrightarrow> column_name m \<in> set ids"
      by blast
    have "\<forall>m. cid \<le> m \<and> m < n \<longrightarrow> column_name m \<in> set ids"
    proof (intro allI impI)
      fix m assume "cid \<le> m \<and> m < n"
      then consider "m = cid" | "Suc cid \<le> m \<and> m < n"
        by linarith
      then show "column_name m \<in> set ids"
        using True n(5) by cases auto
    qed
    with n show ?thesis
      by (intro exI[of _ n]) simp
  next
    case False
    with "1.prems" have "nm = column_name cid" "cid' = Suc cid"
      by (simp_all add: next_column_name.simps[of ids cid])
    with False show ?thesis
      by (intro exI[of _ cid]) auto
  qed
qed

lemma columnIds_from_length: "length (columnIds_from ids cid xs) = length xs"
  by (induction xs arbitrary: cid) (auto split: prod.splits)

lemma columnIds_from_explicit:
  "i < length xs \<Longrightarrow> id_val (xs ! i) \<noteq> [] \<Longrightarrow>
     columnIds_from ids cid xs ! i = id_val (xs ! i)"
proof (induction xs arbitrary: cid i)
  case Nil
  then show ?case by simp
next
  case (Cons x xs)
  then show ?case
    by (cases i) (auto split: prod.splits)
qed

lemma columnIds_from_synthesized:
  "i < length xs \<Longrightarrow> id_val (xs ! i) = [] \<Longrightarrow>
     \<exists>n\<ge>cid. columnIds_from ids cid xs ! i = column_name n
        \<and> column_name n \<notin> set ids
        \<and> (\<forall>m. cid \<le> m \<and> m < n \<longrightarrow>
              column_name m \<in> set ids
              \<or> (\<exists>j<i. id_val (xs ! j) = [] \<and> columnIds_from ids cid xs ! j = column_name m))"
proof (induction xs arbitrary: cid i)
  case Nil
  then show ?case by simp
next
  case (Cons x xs)
  show ?case
  proof (cases "id_val x = []")
    case False
    with Cons.prems obtain i' where i: "i = Suc i'" "i' < length xs" "id_val (xs ! i') = []"
      by (cases i) auto
    from Cons.IH[OF i(2,3), of cid] obtain n where n: "cid \<le> n"
      "columnIds_from ids cid xs ! i' = column_name n" "column_name n \<notin> set ids"
      "\<forall>m. cid \<le> m \<and> m < n \<longrightarrow> column_name m \<in> set ids
          \<or> (\<exists>j<i'. id_val (xs ! j) = [] \<and> columnIds_from ids cid xs ! j = column_name m)"
      by blast
    have "\<forall>m. cid \<le> m \<and> m < n \<longrightarrow> column_name m \<in> set ids
          \<or> (\<exists>j<i. id_val ((x # xs) ! j) = []
                \<and> columnIds_from ids cid (x # xs) ! j = column_name m)"
    proof (intro allI impI)
      fix m assume m: "cid \<le> m \<and> m < n"
      with n(4) consider "column_name m \<in> set ids"
        | j where "j < i'" "id_val (xs ! j) = []" "columnIds_from ids cid xs ! j = column_name m"
        by blast
      then show "column_name m \<in> set ids
          \<or> (\<exists>j<i. id_val ((x # xs) ! j) = []
                \<and> columnIds_from ids cid (x # xs) ! j = column_name m)"
      proof cases
        case 1
        then show ?thesis by simp
      next
        case 2
        with False i(1) show ?thesis
          by (intro disjI2 exI[of _ "Suc j"]) simp
      qed
    qed
    with n False i(1) show ?thesis
      by (intro exI[of _ n]) simp
  next
    case True
    obtain nm cid' where nx: "next_column_name ids cid = (nm, cid')"
      by (cases "next_column_name ids cid")
    from next_column_name_spec[OF nx] obtain n0 where n0: "nm = column_name n0" "cid \<le> n0"
      "cid' = Suc n0" "column_name n0 \<notin> set ids"
      "\<forall>m. cid \<le> m \<and> m < n0 \<longrightarrow> column_name m \<in> set ids"
      by blast
    have ks: "columnIds_from ids cid (x # xs) = column_name n0 # columnIds_from ids (Suc n0) xs"
      using True nx n0 by simp
    show ?thesis
    proof (cases i)
      case 0
      with n0 ks show ?thesis
        by (intro exI[of _ n0]) simp
    next
      case (Suc i')
      with Cons.prems have i: "i' < length xs" "id_val (xs ! i') = []"
        by simp_all
      from Cons.IH[OF i, of "Suc n0"] obtain n where n: "Suc n0 \<le> n"
        "columnIds_from ids (Suc n0) xs ! i' = column_name n" "column_name n \<notin> set ids"
        "\<forall>m. Suc n0 \<le> m \<and> m < n \<longrightarrow> column_name m \<in> set ids
            \<or> (\<exists>j<i'. id_val (xs ! j) = []
                  \<and> columnIds_from ids (Suc n0) xs ! j = column_name m)"
        by blast
      have "\<forall>m. cid \<le> m \<and> m < n \<longrightarrow> column_name m \<in> set ids
            \<or> (\<exists>j<i. id_val ((x # xs) ! j) = []
                  \<and> columnIds_from ids cid (x # xs) ! j = column_name m)"
      proof (intro allI impI)
        fix m assume m: "cid \<le> m \<and> m < n"
        then consider "m < n0" | "m = n0" | "Suc n0 \<le> m"
          by linarith
        then show "column_name m \<in> set ids
            \<or> (\<exists>j<i. id_val ((x # xs) ! j) = []
                  \<and> columnIds_from ids cid (x # xs) ! j = column_name m)"
        proof cases
          case 1
          with m n0(5) show ?thesis by simp
        next
          case 2
          with True ks Suc show ?thesis
            by (intro disjI2 exI[of _ 0]) simp
        next
          case 3
          with m n(4) consider "column_name m \<in> set ids"
            | j where "j < i'" "id_val (xs ! j) = []"
                "columnIds_from ids (Suc n0) xs ! j = column_name m"
            by blast
          then show ?thesis
          proof cases
            case 1
            then show ?thesis by simp
          next
            case 2
            with ks Suc show ?thesis
              by (intro disjI2 exI[of _ "Suc j"]) simp
          qed
        qed
      qed
      with n n0(2) ks Suc show ?thesis
        by (intro exI[of _ n]) simp
    qed
  qed
qed

lemma columnIds_from_increasing:
  "i < j \<Longrightarrow> j < length xs \<Longrightarrow> id_val (xs ! i) = [] \<Longrightarrow> id_val (xs ! j) = [] \<Longrightarrow>
     \<exists>m n. columnIds_from ids cid xs ! i = column_name m
          \<and> columnIds_from ids cid xs ! j = column_name n \<and> m < n"
proof (induction xs arbitrary: cid i j)
  case Nil
  then show ?case by simp
next
  case (Cons x xs)
  from Cons.prems obtain j' where j: "j = Suc j'" "j' < length xs" "id_val (xs ! j') = []"
    by (cases j) auto
  show ?case
  proof (cases "id_val x = []")
    case False
    with Cons.prems j obtain i' where i: "i = Suc i'" "i' < j'" "id_val (xs ! i') = []"
      by (cases i) auto
    from Cons.IH[OF i(2) j(2) i(3) j(3), of cid] False i(1) j(1) show ?thesis
      by simp
  next
    case True
    obtain nm cid' where nx: "next_column_name ids cid = (nm, cid')"
      by (cases "next_column_name ids cid")
    from next_column_name_spec[OF nx] obtain n0 where n0: "nm = column_name n0" "cid \<le> n0"
      "cid' = Suc n0"
      by blast
    have ks: "columnIds_from ids cid (x # xs) = column_name n0 # columnIds_from ids (Suc n0) xs"
      using True nx n0 by simp
    show ?thesis
    proof (cases i)
      case 0
      from columnIds_from_synthesized[OF j(2,3), of "Suc n0" ids] obtain n
        where "Suc n0 \<le> n" "columnIds_from ids (Suc n0) xs ! j' = column_name n"
        by blast
      with ks 0 j(1) show ?thesis
        by (intro exI[of _ n0] exI[of _ n]) simp
    next
      case (Suc i')
      with Cons.prems j have i: "i' < j'" "id_val (xs ! i') = []"
        by simp_all
      from Cons.IH[OF i(1) j(2) i(2) j(3), of "Suc n0"] ks Suc j(1) show ?thesis
        by simp
    qed
  qed
qed

lemma columnIds_no_collision:
  assumes i: "i < length cols" "id_val (cols ! i) = []" and j: "j < length cols" "j \<noteq> i"
  shows "columnIds cols ! j \<noteq> columnIds cols ! i"
proof (cases "id_val (cols ! j) = []")
  case True
  from j(2) consider "i < j" | "j < i"
    by linarith
  then show ?thesis
  proof cases
    case 1
    from columnIds_from_increasing[OF 1 j(1) i(2) True, of "map id_val cols" 0]
    show ?thesis
      by (auto simp: columnIds_def dest: column_name_inj)
  next
    case 2
    from columnIds_from_increasing[OF 2 i(1) True i(2), of "map id_val cols" 0]
    show ?thesis
      by (auto simp: columnIds_def dest: column_name_inj)
  qed
next
  case False
  with j(1) have "columnIds cols ! j \<in> set (map id_val cols)"
    by (simp add: columnIds_def columnIds_from_explicit)
  moreover from columnIds_from_synthesized[OF i, of 0 "map id_val cols"]
  obtain n where "columnIds_from (map id_val cols) 0 cols ! i = column_name n"
    "column_name n \<notin> set (map id_val cols)"
    by blast
  then have "columnIds cols ! i \<notin> set (map id_val cols)"
    by (simp add: columnIds_def)
  ultimately show ?thesis
    by auto
qed

lemma store_columns_other:
  "store_columns cols ks item ret = Inr out \<Longrightarrow> k \<notin> set ks \<Longrightarrow>
     map_of (row_fields out) k = map_of (row_fields ret) k"
  by (induction cols ks item ret rule: store_columns.induct)
     (auto split: sum.splits simp: update_conv')

lemma store_columns_stored:
  "store_columns cols ks item ret = Inr out \<Longrightarrow> i < length cols \<Longrightarrow> i < length ks \<Longrightarrow>
   ks ! i \<notin> set (drop (Suc i) ks) \<Longrightarrow>
     \<exists>v. get_val (cols ! i) (Some item) = Inr v
        \<and> map_of (row_fields out) (ks ! i) = Some (nullish_coalesce v)"
proof (induction cols ks item ret arbitrary: i rule: store_columns.induct)
  case (1 col cols k ks item ret)
  from "1.prems"(1) obtain v where v: "get_val col (Some item) = Inr v"
    and rest: "store_columns cols ks item
                 (Row (row_id ret) (AList.update k (nullish_coalesce v) (row_fields ret))) = Inr out"
    by (auto split: sum.splits)
  show ?case
  proof (cases i)
    case 0
    with "1.prems"(4) have "k \<notin> set ks"
      by simp
    from store_columns_other[OF rest this] v 0 show ?thesis
      by (simp add: update_conv')
  next
    case (Suc i')
    with "1.prems" "1.IH"[OF v rest, of i'] show ?thesis
      by simp
  qed
qed simp_all

lemma columnIds_a_anon_anon:
  assumes "map id_val cols = [''a'', [], []]"
  shows "columnIds cols = [''a'', ''column0'', ''column1'']"
proof -
  from assms obtain x y z where c: "cols = [x, y, z]" "id_val x = ''a''" "id_val y = []"
    "id_val z = []"
    by (auto simp: map_eq_Cons_conv)
  have n0: "next_column_name [''a'', [], []] 0 = (''column0'', Suc 0)"
    by (simp add: next_column_name.simps[of _ 0] column_name_def string_of_nat.simps digit_char_def)
  have n1: "next_column_name [''a'', [], []] (Suc 0) = (''column1'', Suc (Suc 0))"
    by (simp add: next_column_name.simps[of _ "Suc 0"] column_name_def string_of_nat.simps
        digit_char_def)
  from c n0 n1 show ?thesis
    by (simp add: columnIds_def)
qed

text \<open>
  C8. For columns with ids \<open>a\<close>, empty, empty the output keys are \<open>a\<close>, \<open>column0\<close>,
  \<open>column1\<close>. In general a column with an id keeps it as its key; a column without
  one gets \<open>column\<close> followed by the smallest number whose key is neither a column id nor
  the key of an earlier unnamed column, and that key differs from the key of every
  other column. Every row that \<open>enumerate\<close> yields holds, under the key of each unnamed
  column, that column's value on the upstream row (\<open>null\<close> for \<open>undefined\<close>).
\<close>

theorem synthesized_keys:
  "(map id_val cols = [''a'', [], []] \<longrightarrow> columnIds cols = [''a'', ''column0'', ''column1''])
   \<and> length (columnIds cols) = length cols
   \<and> (\<forall>i<length cols. id_val (cols ! i) \<noteq> [] \<longrightarrow> columnIds cols ! i = id_val (cols ! i))
   \<and> (\<forall>i<length cols. id_val (cols ! i) = [] \<longrightarrow>
        (\<exists>n. columnIds cols ! i = column_name n
           \<and> column_name n \<notin> set (map id_val cols)
           \<and> (\<forall>m<n. column_name m \<in> set (map id_val cols)
                  \<or> (\<exists>j<i. id_val (cols ! j) = [] \<and> columnIds cols ! j = column_name m)))
        \<and> (\<forall>j<length cols. j \<noteq> i \<longrightarrow> columnIds cols ! j \<noteq> columnIds cols ! i))
   \<and> (\<forall>k<length (fst (enumerate env (Selection b cols byId pre))).
        \<forall>i<length cols. id_val (cols ! i) = [] \<longrightarrow>
          (\<exists>v. get_val (cols ! i) (Some (fst (enumerate env b) ! k)) = Inr v
             \<and> map_of (row_fields (fst (enumerate env (Selection b cols byId pre)) ! k))
                      (columnIds cols ! i)
                 = Some (nullish_coalesce v)))"
proof (intro conjI allI impI)
  assume "map id_val cols = [''a'', [], []]"
  then show "columnIds cols = [''a'', ''column0'', ''column1'']"
    by (rule columnIds_a_anon_anon)
next
  show len: "length (columnIds cols) = length cols"
    by (simp add: columnIds_def columnIds_from_length)
next
  fix i assume "i < length cols" "id_val (cols ! i) \<noteq> []"
  then show "columnIds cols ! i = id_val (cols ! i)"
    by (simp add: columnIds_def columnIds_from_explicit)
next
  fix i assume i: "i < length cols" "id_val (cols ! i) = []"
  from columnIds_from_synthesized[OF i, of 0 "map id_val cols"]
  show "\<exists>n. columnIds cols ! i = column_name n
           \<and> column_name n \<notin> set (map id_val cols)
           \<and> (\<forall>m<n. column_name m \<in> set (map id_val cols)
                  \<or> (\<exists>j<i. id_val (cols ! j) = [] \<and> columnIds cols ! j = column_name m))"
    unfolding columnIds_def by simp
next
  fix i j assume "i < length cols" "id_val (cols ! i) = []" "j < length cols" "j \<noteq> i"
  then show "columnIds cols ! j \<noteq> columnIds cols ! i"
    by (rule columnIds_no_collision)
next
  fix k i
  assume k: "k < length (fst (enumerate env (Selection b cols byId pre)))"
    and i: "i < length cols" "id_val (cols ! i) = []"
  obtain items fin where e: "enumerate env b = (items, fin)"
    by (cases "enumerate env b")
  let ?ks = "columnIds cols"
  let ?out = "fst (for_items (project pre cols ?ks) items fin)"
  have len: "length ?ks = length cols"
    by (simp add: columnIds_def columnIds_from_length)
  from k e have "k < length ?out"
    by simp
  from for_items_nth[OF this]
  have p: "store_columns cols ?ks (items ! k) (setId (Row [] []) (pre @ getId (items ! k)))
             = Inr (?out ! k)"
    by (simp add: project_def)
  have "?ks ! i \<notin> set (drop (Suc i) ?ks)"
  proof
    assume "?ks ! i \<in> set (drop (Suc i) ?ks)"
    then obtain d where d: "d < length (drop (Suc i) ?ks)" "drop (Suc i) ?ks ! d = ?ks ! i"
      by (auto simp: in_set_conv_nth)
    with len have "Suc i + d < length cols" "?ks ! (Suc i + d) = ?ks ! i"
      by simp_all
    with columnIds_no_collision[OF i, of "Suc i + d"] show False
      by simp
  qed
  from store_columns_stored[OF p i(1) _ this] i(1) len
  obtain v where "get_val (cols ! i) (Some (items ! k)) = Inr v"
    "map_of (row_fields (?out ! k)) (?ks ! i) = Some (nullish_coalesce v)"
    by auto
  with e show "\<exists>v. get_val (cols ! i) (Some (fst (enumerate env b) ! k)) = Inr v
             \<and> map_of (row_fields (fst (enumerate env (Selection b cols byId pre)) ! k))
                      (columnIds cols ! i)
                 = Some (nullish_coalesce v)"
    by simp
qed

lemma columnIds_colC0:
  "columnIds [colC0, lit Types_int (JNum 5), lit Types_int JUndefined]
     = [''column0'', ''column1'', ''column2'']"
proof -
  have i: "id_val colC0 = ''column0''" "id_val (lit t v) = []" for t v
    by (simp_all add: colC0_def lit_def)
  have n0: "next_column_name [''column0'', [], []] 0 = (''column1'', Suc (Suc 0))"
    by (simp add: next_column_name.simps[of _ 0] next_column_name.simps[of _ "Suc 0"]
        column_name_def string_of_nat.simps digit_char_def)
  have n1: "next_column_name [''column0'', [], []] (Suc (Suc 0)) = (''column2'', Suc (Suc (Suc 0)))"
    by (simp add: next_column_name.simps[of _ "Suc (Suc 0)"] column_name_def string_of_nat.simps
        digit_char_def)
  from i n0 n1 show ?thesis
    by (simp add: columnIds_def)
qed

theorem synthesized_keys_witness:
  "columnIds [colA, lit Types_int (JNum 5), lit Types_int JUndefined]
     = [''a'', ''column0'', ''column1'']
   \<and> columnIds [colC0, lit Types_int (JNum 5), lit Types_int JUndefined]
     = [''column0'', ''column1'', ''column2'']
   \<and> fst (enumerate env0 selK)
     = [Row ''s7r1'' [(''a'', JNum 1), (''column0'', JNum 5), (''column1'', JNull)],
        Row ''s7r2'' [(''a'', JNum 2), (''column0'', JNum 5), (''column1'', JNull)]]"
proof -
  let ?cols = "[colA, lit Types_int (JNum 5), lit Types_int JUndefined]"
  have "map id_val ?cols = [''a'', [], []]"
    by (simp add: colA_def lit_def)
  with synthesized_keys[of ?cols env0 tbl "[(''a'', colA), ([], lit Types_int JUndefined)]" "''s7''"]
  have ks: "columnIds ?cols = [''a'', ''column0'', ''column1'']"
    by blast
  have g: "get_val colA raw = read_field ''a'' raw" "get_val (lit t v) raw = Inr v" for raw t v
    by (simp_all add: colA_def lit_def)
  have "fst (enumerate env0 selK)
     = [Row ''s7r1'' [(''a'', JNum 1), (''column0'', JNum 5), (''column1'', JNull)],
        Row ''s7r2'' [(''a'', JNum 2), (''column0'', JNum 5), (''column1'', JNull)]]"
    by (simp add: selK_def tbl_def ks project_def setId_def getId_def g read_field_def)
  with ks columnIds_colC0 show ?thesis
    by simp
qed

end
